theory Spec2Isabelle
  imports Complex_Main "HOL-Library.Word" "HOL-Library.Multiset"
begin

section \<open>Configuration (class AppConfig)\<close>

text \<open>
  The sampling engine of \<^verbatim>\<open>src/ooo.py\<close>. Python's unbounded integers are \<open>int\<close> or
  \<open>nat\<close> (coordinates, sizes and counters are never negative in the source), a Python
  float is an exact real number (\<open>real\<close>): \<^verbatim>\<open>file_size / TOTAL_POINTS\<close> is the exact quotient
  and \<^verbatim>\<open>int(...)\<close> truncates it toward zero. Rounding of IEEE doubles is not modelled.
  Every exception the modelled code can raise is a value of \<open>error\<close>.
\<close>

datatype error = ValueError | ZeroDivisionError | OSError

text \<open>\<^verbatim>\<open>BYTES_PER_SAMPLE = 8\<close>: the window length read per sample.\<close>

definition BYTES_PER_SAMPLE :: nat where
  "BYTES_PER_SAMPLE = 8"

text \<open>
  The numeric settings the engine reads. \<^verbatim>\<open>LOGICAL_WIDTH = VIS_WIDTH // CELL_SIZE\<close> and
  \<^verbatim>\<open>LOGICAL_HEIGHT = VIS_HEIGHT // CELL_SIZE\<close> are fields, so that statements can range
  over every geometry; \<open>AppConfig\<close> below is the configuration of the source.
\<close>

record app_config =
  LOGICAL_WIDTH :: nat
  LOGICAL_HEIGHT :: nat
  NUM_WORKERS :: nat
  GRID_CELL_LOGICAL_WIDTH :: nat
  GRID_CELL_LOGICAL_HEIGHT :: nat
  FILESET_BATCH_SIZE :: nat

definition TOTAL_POINTS :: "app_config \<Rightarrow> nat" where
  "TOTAL_POINTS cfg = LOGICAL_WIDTH cfg * LOGICAL_HEIGHT cfg"


text \<open>
  The values of the source; \<^verbatim>\<open>NUM_WORKERS = os.cpu_count() or 4\<close>, where
  \<^verbatim>\<open>os.cpu_count()\<close> is \<open>None\<close> or a count (\<open>0\<close> is falsy as well).
\<close>

definition AppConfig :: "nat option \<Rightarrow> app_config" where
  "AppConfig cpu_count =
     \<lparr> LOGICAL_WIDTH = 800 div 2,
       LOGICAL_HEIGHT = 80 div 2,
       NUM_WORKERS = (case cpu_count of None \<Rightarrow> 4 | Some n \<Rightarrow> if n = 0 then 4 else n),
       GRID_CELL_LOGICAL_WIDTH = 100,
       GRID_CELL_LOGICAL_HEIGHT = 100,
       FILESET_BATCH_SIZE = 500 \<rparr>"

section \<open>Library functions of Python used by the engine\<close>

text \<open>\<^verbatim>\<open>int(q)\<close> on a float: truncation toward zero.\<close>

definition py_int :: "real \<Rightarrow> int" where
  "py_int q = (if 0 \<le> q then \<lfloor>q\<rfloor> else \<lceil>q\<rceil>)"

text \<open>
  \<^verbatim>\<open>random.randint(a, b)\<close>: some integer of \<open>[a, b]\<close>, \<^verbatim>\<open>ValueError\<close> on an empty
  range. The generator's raw output \<open>r\<close> is a parameter; every value of the range is
  the result for some \<open>r\<close> (lemma \<open>randint_onto\<close>).
\<close>

definition randint :: "int \<Rightarrow> int \<Rightarrow> nat \<Rightarrow> error + int" where
  "randint a b r = (if b < a then Inl ValueError else Inr (a + int r mod (b - a + 1)))"

text \<open>
  \<^verbatim>\<open>random.shuffle(x)\<close>: the Fisher-Yates loop of the standard library,
  \<^verbatim>\<open>for i in reversed(range(1, len(x))): j = randbelow(i + 1); x[i], x[j] = x[j], x[i]\<close>,
  with the raw draw of step \<open>i\<close> given by \<open>rnd i\<close>.
\<close>

fun shuffle_loop :: "(nat \<Rightarrow> nat) \<Rightarrow> nat \<Rightarrow> 'a list \<Rightarrow> 'a list" where
  "shuffle_loop rnd 0 xs = xs"
| "shuffle_loop rnd (Suc k) xs =
     (let i = Suc k; j = rnd i mod (i + 1)
      in shuffle_loop rnd k (xs[i := xs ! j, j := xs ! i]))"

definition shuffle :: "(nat \<Rightarrow> nat) \<Rightarrow> 'a list \<Rightarrow> 'a list" where
  "shuffle rnd xs = shuffle_loop rnd (length xs - 1) xs"

text \<open>A slice \<^verbatim>\<open>xs[i:j]\<close> with \<open>0 \<le> i\<close>, \<open>0 \<le> j\<close>: it stops at the end of the list.\<close>

definition slice :: "'a list \<Rightarrow> nat \<Rightarrow> nat \<Rightarrow> 'a list" where
  "slice xs i j = take (j - i) (drop i xs)"

text \<open>\<^verbatim>\<open>range(0, stop, step)\<close> for \<open>stop \<ge> 0\<close>: \<^verbatim>\<open>ValueError\<close> on a zero step.\<close>

definition range_step :: "nat \<Rightarrow> nat \<Rightarrow> error + nat list" where
  "range_step stop step =
     (if step = 0 then Inl ValueError
      else Inr (map (\<lambda>k. k * step) [0..<(stop + step - 1) div step]))"

text \<open>Floor division \<^verbatim>\<open>a // b\<close> of non-negative integers.\<close>

definition floordiv :: "nat \<Rightarrow> nat \<Rightarrow> error + nat" where
  "floordiv a b = (if b = 0 then Inl ZeroDivisionError else Inr (a div b))"

text \<open>True division \<^verbatim>\<open>a / b\<close> of non-negative integers.\<close>

definition truediv :: "nat \<Rightarrow> nat \<Rightarrow> error + real" where
  "truediv a b = (if b = 0 then Inl ZeroDivisionError else Inr (of_nat a / of_nat b))"

section \<open>Region mapping and sampling (RenderWorker)\<close>

type_synonym byte = "8 word"
type_synonym coord = "nat \<times> nat"

text \<open>A sample event \<^verbatim>\<open>point_sampled.emit(x, y, score)\<close>.\<close>

type_synonym event = "nat \<times> nat \<times> int"



text \<open>\<^verbatim>\<open>index = x * self.logical_height + y; region_start = int(index * self.chunk_size)\<close>\<close>

definition region_start :: "real \<Rightarrow> nat \<Rightarrow> nat \<Rightarrow> nat \<Rightarrow> int" where
  "region_start chunk_size logical_height x y =
     py_int (of_nat (x * logical_height + y) * chunk_size)"

text \<open>\<^verbatim>\<open>max_offset = max(0, self.chunk_size - AppConfig.BYTES_PER_SAMPLE)\<close>\<close>

definition max_offset :: "real \<Rightarrow> real" where
  "max_offset chunk_size = max 0 (chunk_size - of_nat BYTES_PER_SAMPLE)"

text \<open>\<^verbatim>\<open>sample_pos = region_start + random.randint(0, int(max_offset))\<close>\<close>

definition sample_pos :: "real \<Rightarrow> nat \<Rightarrow> nat \<Rightarrow> nat \<Rightarrow> nat \<Rightarrow> error + int" where
  "sample_pos chunk_size logical_height x y r =
     (case randint 0 (py_int (max_offset chunk_size)) r of
        Inl e \<Rightarrow> Inl e
      | Inr off \<Rightarrow> Inr (region_start chunk_size logical_height x y + off))"

text \<open>\<^verbatim>\<open>score = len(set(data))\<close>\<close>

definition score :: "byte list \<Rightarrow> int" where
  "score data = int (card (set data))"





section \<open>The single-file scheduler (FileProcessorThread)\<close>

text \<open>\<^verbatim>\<open>[(x, y) for y in range(H) for x in range(W)]\<close>\<close>

definition all_coordinates :: "nat \<Rightarrow> nat \<Rightarrow> coord list" where
  "all_coordinates w h = concat (map (\<lambda>y. map (\<lambda>x. (x, y)) [0..<w]) [0..<h])"

text \<open>
  \<^verbatim>\<open>coords_per_worker = (TOTAL_POINTS + NUM_WORKERS - 1) // NUM_WORKERS\<close> and
  \<^verbatim>\<open>[all_coordinates[i:i + coords_per_worker] for i in range(0, TOTAL_POINTS, coords_per_worker)]\<close>
\<close>

definition coord_chunks :: "app_config \<Rightarrow> coord list \<Rightarrow> error + coord list list" where
  "coord_chunks cfg coords =
     (case floordiv (TOTAL_POINTS cfg + NUM_WORKERS cfg - 1) (NUM_WORKERS cfg) of
        Inl e \<Rightarrow> Inl e
      | Inr coords_per_worker \<Rightarrow>
          (case range_step (TOTAL_POINTS cfg) coords_per_worker of
             Inl e \<Rightarrow> Inl e
           | Inr starts \<Rightarrow> Inr (map (\<lambda>i. slice coords i (i + coords_per_worker)) starts)))"

text \<open>
  The three messages of \<^verbatim>\<open>error_occurred\<close>: the file does not exist, the file is too
  small to map, and the message of the outer \<^verbatim>\<open>except Exception as e\<close>.
\<close>

datatype session_error = FileMissing | FileTooSmall | ProcessingFailed error

text \<open>
  The outcome of \<^verbatim>\<open>FileProcessorThread.run\<close> when no stop is requested while it starts
  its workers: a terminal error with no worker, or one \<^verbatim>\<open>RenderWorker\<close> per slice of
  the shuffled coordinates, all with the same \<open>chunk_size\<close>. \<open>file\<close> is \<open>None\<close> when
  \<^verbatim>\<open>os.path.exists\<close> is false and the size of the file otherwise.
\<close>

datatype session = SessionError session_error | Started real "coord list list"

definition FileProcessorThread_run :: "app_config \<Rightarrow> nat option \<Rightarrow> (nat \<Rightarrow> nat) \<Rightarrow> session" where
  "FileProcessorThread_run cfg file rnd =
     (case file of
        None \<Rightarrow> SessionError FileMissing
      | Some file_size \<Rightarrow>
          if file_size < TOTAL_POINTS cfg then SessionError FileTooSmall
          else
            (case truediv file_size (TOTAL_POINTS cfg) of
               Inl e \<Rightarrow> SessionError (ProcessingFailed e)
             | Inr chunk_size \<Rightarrow>
                 (case coord_chunks cfg
                         (shuffle rnd (all_coordinates (LOGICAL_WIDTH cfg) (LOGICAL_HEIGHT cfg))) of
                    Inl e \<Rightarrow> SessionError (ProcessingFailed e)
                  | Inr chunks \<Rightarrow> Started chunk_size chunks)))"

text \<open>The workers a session started: none after a terminal error.\<close>

fun workers :: "session \<Rightarrow> coord list list" where
  "workers (SessionError e) = []"
| "workers (Started chunk_size chunks) = chunks"

section \<open>The cell aggregator (VisualizationWidget)\<close>

type_synonym colour = "nat \<times> nat \<times> nat"

text \<open>\<^verbatim>\<open>COLOR_BACKGROUND = QColor("#1D1616")\<close>\<close>

definition COLOR_BACKGROUND :: colour where
  "COLOR_BACKGROUND = (0x1D, 0x16, 0x16)"

text \<open>
  A value of \<^verbatim>\<open>grid_stats\<close>: \<^verbatim>\<open>{'total_score': ..., 'count': ..., 'display_color': ...}\<close>
  (the field \<^verbatim>\<open>count\<close> is \<open>count'\<close> here).
\<close>

record grid_cell =
  total_score :: int
  count' :: nat
  display_color :: colour

type_synonym grid_stats = "coord \<rightharpoonup> grid_cell"

text \<open>The average shown for a cell: \<^verbatim>\<open>stats['total_score'] / stats['count']\<close>.\<close>

definition average :: "grid_cell \<Rightarrow> real" where
  "average c = real_of_int (total_score c) / real (count' c)"

text \<open>\<^verbatim>\<open>clear_grid\<close>, on \<^verbatim>\<open>grid_stats\<close>.\<close>

definition clear_grid :: "grid_stats \<Rightarrow> grid_stats" where
  "clear_grid g = Map.empty"

text \<open>
  \<^verbatim>\<open>update_point_average\<close>, on \<^verbatim>\<open>grid_stats\<close>. The glow it may register in
  \<^verbatim>\<open>active_glows\<close> is presentation state and is not modelled.
\<close>

definition update_point_average :: "nat \<Rightarrow> nat \<Rightarrow> int \<Rightarrow> grid_stats \<Rightarrow> grid_stats" where
  "update_point_average x y new_score g =
     (let pos = (x, y);
          stats = (case g pos of
                     None \<Rightarrow> \<lparr> total_score = 0, count' = 0, display_color = COLOR_BACKGROUND \<rparr>
                   | Some c \<Rightarrow> c);
          new_count = count' stats + 1;
          new_total = total_score stats + new_score
      in g(pos \<mapsto> stats\<lparr> total_score := new_total, count' := new_count \<rparr>))"

text \<open>
  \<^verbatim>\<open>_tick_animations\<close>, on \<^verbatim>\<open>grid_stats\<close>: \<open>current pos\<close> is the interpolated colour of
  the glow registered for \<open>pos\<close>, if any, and it is stored only when \<open>pos\<close> has a cell
  (\<^verbatim>\<open>if pos in self.grid_stats\<close>).
\<close>

definition tick_animations :: "(coord \<rightharpoonup> colour) \<Rightarrow> grid_stats \<Rightarrow> grid_stats" where
  "tick_animations current g =
     (\<lambda>pos. case g pos of
               None \<Rightarrow> None
             | Some c \<Rightarrow>
                 (case current pos of
                    None \<Rightarrow> Some c
                  | Some col \<Rightarrow> Some (c\<lparr> display_color := col \<rparr>)))"

text \<open>The events of a session, merged in the order in which the widget receives them.\<close>

fun merge_all :: "event list \<Rightarrow> grid_stats \<Rightarrow> grid_stats" where
  "merge_all [] g = g"
| "merge_all ((x, y, s) # evs) g = merge_all evs (update_point_average x y s g)"

text \<open>
  The grids a widget can hold: it starts empty, and only the three methods above write
  \<^verbatim>\<open>grid_stats\<close>.
\<close>

inductive reachable :: "grid_stats \<Rightarrow> bool" where
  init: "reachable Map.empty"
| merge: "reachable g \<Longrightarrow> reachable (update_point_average x y s g)"
| clear: "reachable g \<Longrightarrow> reachable (clear_grid g)"
| tick: "reachable g \<Longrightarrow> reachable (tick_animations current g)"

text \<open>
  For the statements below: the scores that a list of events carries for the cell at
  \<open>pos\<close>, in the order of the list.
\<close>

definition scores_at :: "coord \<Rightarrow> event list \<Rightarrow> int list" where
  "scores_at pos evs = map (\<lambda>e. snd (snd e)) (filter (\<lambda>e. (fst e, fst (snd e)) = pos) evs)"

section \<open>The multi-file batch scheduler (FileSetWindow, FileSetBatchWorker)\<close>


text \<open>An entry \<^verbatim>\<open>(file_path, x, y)\<close> of \<^verbatim>\<open>samples_to_process\<close>.\<close>

type_synonym sample = "string \<times> nat \<times> nat"




text \<open>
  The rest of \<^verbatim>\<open>trigger_sampling_batch\<close>: the sample lists handed to the
  \<^verbatim>\<open>FileSetBatchWorker\<close>s of the tick (\<^verbatim>\<open>if not chunk: continue\<close>).
\<close>

definition batch_workers :: "app_config \<Rightarrow> sample list \<Rightarrow> error + sample list list" where
  "batch_workers cfg samples_to_process =
     (case floordiv (length samples_to_process + NUM_WORKERS cfg - 1) (NUM_WORKERS cfg) of
        Inl e \<Rightarrow> Inl e
      | Inr coords_per_worker \<Rightarrow>
          Inr (filter (\<lambda>chunk. chunk \<noteq> [])
                 (map (\<lambda>i. slice samples_to_process (i * coords_per_worker)
                               ((i + 1) * coords_per_worker))
                    [0..<NUM_WORKERS cfg])))"






section \<open>Properties of the region mapping\<close>


lemma randint_onto:
  assumes "a \<le> v" "v \<le> b"
  shows "randint a b (nat (v - a)) = Inr v"
  using assms by (simp add: randint_def)








text \<open>
  Claim C7. When the chunk size of a region is at most the window length
  (\<open>chunk_size \<le> BYTES_PER_SAMPLE\<close>), the largest random offset is clamped to \<open>0\<close> and the
  sample position is the start of the region whatever the random source draws: any two
  draws give the same position. Scenario A (geometry 10 x 5, 400 bytes, chunk size 8) is
  the instance evaluated after the theorem, for every coordinate and every draw.
\<close>

theorem clamped_offset_is_deterministic:
  assumes "chunk_size \<le> real BYTES_PER_SAMPLE"
  shows "py_int (max_offset chunk_size) = 0
       \<and> sample_pos chunk_size lh x y r = Inr (region_start chunk_size lh x y)
       \<and> sample_pos chunk_size lh x y r' = sample_pos chunk_size lh x y r"
proof -
  have m: "max_offset chunk_size = 0" using assms by (simp add: max_offset_def max_def)
  have z: "py_int (max_offset chunk_size) = 0" by (simp add: m py_int_def)
  have "\<And>d. sample_pos chunk_size lh x y d = Inr (region_start chunk_size lh x y)"
    by (simp add: sample_pos_def z randint_def)
  then show ?thesis using z by simp
qed

lemma region_start_8: "region_start 8 lh x y = int (x * lh + y) * 8"
proof -
  have "real (x * lh + y) * 8 = of_int (int (x * lh + y) * 8)" by simp
  then have "\<lfloor>real (x * lh + y) * 8\<rfloor> = int (x * lh + y) * 8"
    by (simp only: floor_of_int)
  then show ?thesis by (simp add: region_start_def py_int_def)
qed

theorem clamped_offset_is_deterministic_witness:
  "truediv 400 (10 * 5) = Inr 8 \<and> (8::real) \<le> real BYTES_PER_SAMPLE
   \<and> py_int (max_offset 8) = 0
   \<and> (\<forall>x y r. sample_pos 8 5 x y r = Inr (int (x * 5 + y) * 8))
   \<and> sample_pos 8 5 9 4 0 = Inr 392 \<and> sample_pos 8 5 9 4 7 = Inr 392"
proof -
  have h: "(8::real) \<le> real BYTES_PER_SAMPLE" by (simp add: BYTES_PER_SAMPLE_def)
  have "\<And>x y r. sample_pos 8 5 x y r = Inr (int (x * 5 + y) * 8)"
    using clamped_offset_is_deterministic [OF h] by (simp add: region_start_8)
  moreover have "py_int (max_offset 8) = 0"
    using clamped_offset_is_deterministic [OF h] by simp
  ultimately show ?thesis using h by (simp add: truediv_def)
qed



section \<open>Properties of the shuffle and of the first-pass partition\<close>

lemma shuffle_loop_mset:
  "k < length xs \<Longrightarrow> mset (shuffle_loop rnd k xs) = mset xs"
proof (induction k arbitrary: xs)
  case 0
  then show ?case by simp
next
  case (Suc k)
  let ?j = "rnd (Suc k) mod (Suc k + 1)"
  let ?ys = "xs[Suc k := xs ! ?j, ?j := xs ! Suc k]"
  have j: "?j < length xs" using Suc.prems by (metis Suc_eq_plus1 less_Suc_eq_le mod_less_divisor order_le_less_trans zero_less_Suc)
  have "mset ?ys = mset xs" using Suc.prems j by (simp add: mset_swap)
  moreover have "k < length ?ys" using Suc.prems by simp
  ultimately show ?case using Suc.IH [of ?ys] by (simp add: Let_def)
qed

lemma shuffle_mset: "mset (shuffle rnd xs) = mset xs"
proof (cases xs)
  case Nil
  then show ?thesis by (simp add: shuffle_def)
next
  case (Cons a as)
  then show ?thesis by (simp add: shuffle_def shuffle_loop_mset)
qed

lemma shuffle_set: "set (shuffle rnd xs) = set xs"
  using shuffle_mset by (metis set_mset_mset)

lemma shuffle_length: "length (shuffle rnd xs) = length xs"
  using shuffle_mset by (metis size_mset)

lemma shuffle_distinct: "distinct (shuffle rnd xs) = distinct xs"
  using shuffle_mset by (metis mset_eq_imp_distinct_iff)

lemma all_coordinates_set: "set (all_coordinates w h) = {0..<w} \<times> {0..<h}"
  by (auto simp: all_coordinates_def)

lemma all_coordinates_length: "length (all_coordinates w h) = w * h"
  by (simp add: all_coordinates_def length_concat comp_def sum_list_triv)

lemma all_coordinates_product:
  "all_coordinates w h = map prod.swap (List.product [0..<h] [0..<w])"
  by (simp add: all_coordinates_def product_concat_map map_concat comp_def)

lemma all_coordinates_distinct: "distinct (all_coordinates w h)"
  unfolding all_coordinates_product
  by (simp add: distinct_map distinct_product inj_on_def)

lemma slices_concat:
  "concat (map (\<lambda>i. slice xs i (i + c)) (map (\<lambda>k. k * c) [0..<m])) = take (m * c) xs"
proof (induction m)
  case 0
  then show ?case by simp
next
  case (Suc m)
  have "Suc m * c = m * c + c" by simp
  then have "take (Suc m * c) xs = take (m * c) xs @ take c (drop (m * c) xs)"
    by (simp only: take_add)
  then show ?case using Suc by (simp add: slice_def)
qed

lemma ceil_div_covers:
  assumes "0 < (c::nat)"
  shows "n \<le> ((n + c - 1) div c) * c"
proof -
  have "n + c - 1 < ((n + c - 1) div c) * c + c"
    using assms by (metis add.commute div_mult_mod_eq add_less_cancel_left mod_less_divisor mult.commute)
  then show ?thesis using assms by linarith
qed

lemma coords_per_worker_pos:
  assumes "0 < (n::nat)" "0 < t"
  shows "0 < (t + n - 1) div n"
  using assms by (simp add: div_greater_zero_iff)

lemma chunk_count_le:
  assumes "0 < (n::nat)" "0 < t"
  shows "(t + (t + n - 1) div n - 1) div ((t + n - 1) div n) \<le> n"
proof -
  define c where "c = (t + n - 1) div n"
  have cpos: "0 < c" unfolding c_def using assms by (rule coords_per_worker_pos)
  have "t \<le> c * n" unfolding c_def using ceil_div_covers [OF assms(1), of t] by simp
  then have "t + c - 1 < (n + 1) * c" using cpos by (simp add: algebra_simps)
  then have "(t + c - 1) div c < n + 1" using cpos by (simp add: div_less_iff_less_mult)
  then show ?thesis unfolding c_def by simp
qed

lemma coord_chunks_partition:
  assumes "0 < NUM_WORKERS cfg" "0 < TOTAL_POINTS cfg" "length coords = TOTAL_POINTS cfg"
  shows "\<exists>chunks. coord_chunks cfg coords = Inr chunks \<and> concat chunks = coords
           \<and> length chunks \<le> NUM_WORKERS cfg"
proof -
  define c where "c = (TOTAL_POINTS cfg + NUM_WORKERS cfg - 1) div NUM_WORKERS cfg"
  define m where "m = (TOTAL_POINTS cfg + c - 1) div c"
  have cpos: "0 < c" unfolding c_def using assms(1,2) by (rule coords_per_worker_pos)
  have fd: "floordiv (TOTAL_POINTS cfg + NUM_WORKERS cfg - 1) (NUM_WORKERS cfg) = Inr c"
    using assms(1) by (simp add: floordiv_def c_def)
  have rs: "range_step (TOTAL_POINTS cfg) c = Inr (map (\<lambda>k. k * c) [0..<m])"
    using cpos by (simp add: range_step_def m_def)
  have eq: "coord_chunks cfg coords = Inr (map (\<lambda>i. slice coords i (i + c)) (map (\<lambda>k. k * c) [0..<m]))"
    by (simp only: coord_chunks_def fd rs sum.case)
  have "length coords \<le> m * c" unfolding m_def assms(3) using cpos by (rule ceil_div_covers)
  then have "concat (map (\<lambda>i. slice coords i (i + c)) (map (\<lambda>k. k * c) [0..<m])) = coords"
    by (simp only: slices_concat take_all)
  moreover have "m \<le> NUM_WORKERS cfg"
    unfolding m_def c_def using assms(1,2) by (rule chunk_count_le)
  ultimately show ?thesis using eq by simp
qed

lemma distinct_concat_unique_index:
  assumes "distinct (concat xss)" "i < length xss" "j < length xss"
    "x \<in> set (xss ! i)" "x \<in> set (xss ! j)"
  shows "i = j"
  using assms
proof (induction xss arbitrary: i j)
  case Nil
  then show ?case by simp
next
  case (Cons xs xss)
  have tl: "distinct (concat xss)" using Cons.prems(1) by simp
  have sep: "set xs \<inter> set (concat xss) = {}" using Cons.prems(1) by simp
  have disj: "x \<notin> set xs" if "k < length xss" "x \<in> set (xss ! k)" for k
  proof -
    have "xss ! k \<in> set xss" using that(1) by (rule nth_mem)
    then have "x \<in> set (concat xss)" using that(2) by auto
    then show ?thesis using sep by blast
  qed
  show ?case
  proof (cases i)
    case 0
    show ?thesis
    proof (cases j)
      case 0
      with \<open>i = 0\<close> show ?thesis by simp
    next
      case (Suc j')
      with Cons.prems \<open>i = 0\<close> disj [of j'] show ?thesis by simp
    qed
  next
    case (Suc i')
    show ?thesis
    proof (cases j)
      case 0
      with Cons.prems Suc disj [of i'] show ?thesis by simp
    next
      case (Suc j')
      with Cons.prems \<open>i = Suc i'\<close> Cons.IH [OF tl, of i' j'] show ?thesis by simp
    qed
  qed
qed

lemma in_concat_index:
  assumes "x \<in> set (concat xss)"
  shows "\<exists>i. i < length xss \<and> x \<in> set (xss ! i)"
proof -
  obtain ys where ys: "ys \<in> set xss" "x \<in> set ys" using assms by auto
  then obtain i where "i < length xss" "xss ! i = ys" by (metis in_set_conv_nth)
  then show ?thesis using ys(2) by blast
qed

lemma run_started:
  assumes "0 < NUM_WORKERS cfg" "0 < TOTAL_POINTS cfg" "TOTAL_POINTS cfg \<le> file_size"
    and "coord_chunks cfg (shuffle rnd (all_coordinates (LOGICAL_WIDTH cfg) (LOGICAL_HEIGHT cfg)))
           = Inr chunks"
  shows "FileProcessorThread_run cfg (Some file_size) rnd
           = Started (real file_size / real (TOTAL_POINTS cfg)) chunks"
proof -
  have td: "truediv file_size (TOTAL_POINTS cfg) = Inr (real file_size / real (TOTAL_POINTS cfg))"
    using assms(2) by (simp add: truediv_def)
  have nl: "\<not> file_size < TOTAL_POINTS cfg" using assms(3) by simp
  show ?thesis
    unfolding FileProcessorThread_run_def
    by (simp only: option.case nl if_False td sum.case assms(4))
qed

text \<open>
  Claim C3. For every geometry and every worker count of at least one, the first-pass
  partition (shuffle the full coordinate list, cut it into contiguous slices of
  \<open>ceil(TOTAL_POINTS / NUM_WORKERS)\<close> coordinates) puts every coordinate \<open>(x, y)\<close> of the
  grid into exactly one slice: the slices concatenate to the shuffled list, which has
  no duplicate and holds exactly the coordinates of the grid, and there are at most
  \<open>NUM_WORKERS\<close> slices. They are the slices of the workers that
  \<open>FileProcessorThread_run\<close> starts for every file it accepts.
\<close>

theorem first_pass_partition:
  assumes "1 \<le> NUM_WORKERS cfg" "x < LOGICAL_WIDTH cfg" "y < LOGICAL_HEIGHT cfg"
  shows "\<exists>chunks.
           coord_chunks cfg (shuffle rnd (all_coordinates (LOGICAL_WIDTH cfg) (LOGICAL_HEIGHT cfg)))
             = Inr chunks
         \<and> (\<exists>!i. i < length chunks \<and> (x, y) \<in> set (chunks ! i))
         \<and> distinct (concat chunks)
         \<and> set (concat chunks) = {0..<LOGICAL_WIDTH cfg} \<times> {0..<LOGICAL_HEIGHT cfg}
         \<and> mset (concat chunks) = mset (all_coordinates (LOGICAL_WIDTH cfg) (LOGICAL_HEIGHT cfg))
         \<and> length chunks \<le> NUM_WORKERS cfg
         \<and> (\<forall>file_size. TOTAL_POINTS cfg \<le> file_size \<longrightarrow>
               workers (FileProcessorThread_run cfg (Some file_size) rnd) = chunks)"
proof -
  let ?all = "all_coordinates (LOGICAL_WIDTH cfg) (LOGICAL_HEIGHT cfg)"
  have n: "0 < NUM_WORKERS cfg" using assms(1) by simp
  have t: "0 < TOTAL_POINTS cfg"
  proof -
    have "0 < LOGICAL_WIDTH cfg" "0 < LOGICAL_HEIGHT cfg" using assms(2,3) by auto
    then show ?thesis by (simp add: TOTAL_POINTS_def)
  qed
  have len: "length (shuffle rnd ?all) = TOTAL_POINTS cfg"
    by (simp add: shuffle_length all_coordinates_length TOTAL_POINTS_def)
  obtain chunks where ch: "coord_chunks cfg (shuffle rnd ?all) = Inr chunks"
      "concat chunks = shuffle rnd ?all" "length chunks \<le> NUM_WORKERS cfg"
    using coord_chunks_partition [OF n t len] by blast
  have d: "distinct (concat chunks)"
    by (simp only: ch(2) shuffle_distinct all_coordinates_distinct)
  have s: "set (concat chunks) = {0..<LOGICAL_WIDTH cfg} \<times> {0..<LOGICAL_HEIGHT cfg}"
    by (simp only: ch(2) shuffle_set all_coordinates_set)
  have m: "mset (concat chunks) = mset ?all" by (simp only: ch(2) shuffle_mset)
  have "(x, y) \<in> set (concat chunks)" unfolding s using assms(2,3) by simp
  then have "\<exists>i. i < length chunks \<and> (x, y) \<in> set (chunks ! i)"
    by (rule in_concat_index)
  then obtain i where i: "i < length chunks" "(x, y) \<in> set (chunks ! i)"
    by (elim exE conjE)
  have u: "\<exists>!i. i < length chunks \<and> (x, y) \<in> set (chunks ! i)"
  proof (rule ex1I [of _ i])
    show "i < length chunks \<and> (x, y) \<in> set (chunks ! i)" using i by simp
  next
    fix j assume j: "j < length chunks \<and> (x, y) \<in> set (chunks ! j)"
    show "j = i"
      by (rule distinct_concat_unique_index [OF d conjunct1 [OF j] i(1) conjunct2 [OF j] i(2)])
  qed
  have w: "\<forall>file_size. TOTAL_POINTS cfg \<le> file_size \<longrightarrow>
             workers (FileProcessorThread_run cfg (Some file_size) rnd) = chunks"
  proof (intro allI impI)
    fix file_size assume "TOTAL_POINTS cfg \<le> file_size"
    then show "workers (FileProcessorThread_run cfg (Some file_size) rnd) = chunks"
      by (simp only: run_started [OF n t _ ch(1)] workers.simps)
  qed
  show ?thesis
    by (rule exI [of _ chunks]) (intro conjI ch(1) u d s m ch(3) w)
qed

theorem first_pass_partition_witness:
  "1 \<le> NUM_WORKERS ((AppConfig None)\<lparr>LOGICAL_WIDTH := 2, LOGICAL_HEIGHT := 2, NUM_WORKERS := 3\<rparr>)
   \<and> coord_chunks ((AppConfig None)\<lparr>LOGICAL_WIDTH := 2, LOGICAL_HEIGHT := 2, NUM_WORKERS := 3\<rparr>)
        (shuffle (\<lambda>i. 0) (all_coordinates 2 2)) = Inr [[(1, 0), (0, 1)], [(1, 1), (0, 0)]]
   \<and> (\<exists>!i. i < length [[(1, 0), (0, 1)], [(1, 1), (0, 0 :: nat)]]
            \<and> (1 :: nat, 1 :: nat) \<in> set ([[(1, 0), (0, 1)], [(1, 1), (0, 0)]] ! i))"
proof -
  let ?cfg = "(AppConfig None)\<lparr>LOGICAL_WIDTH := 2, LOGICAL_HEIGHT := 2, NUM_WORKERS := 3\<rparr>"
  have h1: "1 \<le> NUM_WORKERS ?cfg" by simp
  have h2: "1 < LOGICAL_WIDTH ?cfg" by simp
  have h3: "1 < LOGICAL_HEIGHT ?cfg" by simp
  have ev: "coord_chunks ?cfg (shuffle (\<lambda>i. 0) (all_coordinates 2 2))
              = Inr [[(1, 0), (0, 1)], [(1, 1), (0, 0)]]"
    by code_simp
  show ?thesis
    using first_pass_partition [OF h1 h2 h3, of "\<lambda>i. 0"] ev h1 by simp
qed

text \<open>
  Claim C1, on the code: the single-file scheduler compares the file size with
  \<open>TOTAL_POINTS\<close>, not with \<open>TOTAL_POINTS * BYTES_PER_SAMPLE\<close>. With the configuration of
  the source, a file of 16000 bytes is below \<open>16000 * 8\<close> bytes, yet it is not rejected
  as too small and four workers are started.
\<close>

theorem too_small_file_is_scheduled:
  "16000 < TOTAL_POINTS (AppConfig None) * BYTES_PER_SAMPLE
   \<and> FileProcessorThread_run (AppConfig None) (Some 16000) (\<lambda>i. 0) \<noteq> SessionError FileTooSmall
   \<and> length (workers (FileProcessorThread_run (AppConfig None) (Some 16000) (\<lambda>i. 0))) = 4"
proof -
  let ?cfg = "AppConfig None"
  have n: "0 < NUM_WORKERS ?cfg" by (simp add: AppConfig_def)
  have t: "0 < TOTAL_POINTS ?cfg" by (simp add: AppConfig_def TOTAL_POINTS_def)
  have tp: "TOTAL_POINTS ?cfg = 16000" by (simp add: AppConfig_def TOTAL_POINTS_def)
  have nw: "NUM_WORKERS ?cfg = 4" by (simp add: AppConfig_def)
  have le: "TOTAL_POINTS ?cfg \<le> 16000" by (simp add: tp)
  obtain chunks where ch:
    "coord_chunks ?cfg (shuffle (\<lambda>i. 0) (all_coordinates (LOGICAL_WIDTH ?cfg) (LOGICAL_HEIGHT ?cfg)))
       = Inr chunks"
    by (simp add: coord_chunks_def floordiv_def range_step_def tp nw)
  then have len: "length chunks = 4"
    by (auto simp add: coord_chunks_def floordiv_def range_step_def tp nw)
  have "FileProcessorThread_run ?cfg (Some 16000) (\<lambda>i. 0)
          = Started (real 16000 / real (TOTAL_POINTS ?cfg)) chunks"
    using run_started [OF n t le ch] .
  then show ?thesis using len by (simp add: tp BYTES_PER_SAMPLE_def)
qed

section \<open>Properties of the score\<close>

lemma score_card: "score w = int (card (set w))"
  by (simp add: score_def)

text \<open>
  Claim C9. For a window with at least one byte, the score is the number of distinct
  byte values in the window, an integer between \<open>1\<close> and the length of the window, and
  it depends only on which values occur: windows with the same set of values, in any
  order and with any multiplicity, have the same score.
\<close>

theorem score_counts_distinct_bytes:
  assumes "w \<noteq> []"
  shows "score w = int (card (set w)) \<and> 1 \<le> score w \<and> score w \<le> int (length w)
       \<and> (\<forall>w'. set w' = set w \<longrightarrow> score w' = score w)"
proof -
  have "set w \<noteq> {}" using assms by simp
  then have "0 < card (set w)" by (simp add: card_gt_0_iff)
  then have lo: "1 \<le> score w" by (simp add: score_def)
  have hi: "score w \<le> int (length w)" by (simp add: score_def card_length)
  have eq: "\<forall>w'. set w' = set w \<longrightarrow> score w' = score w" by (simp add: score_def)
  show ?thesis using lo hi eq by (simp add: score_def)
qed

theorem score_counts_distinct_bytes_witness:
  "[1, 2, 1, 3 :: byte] \<noteq> [] \<and> score [1, 2, 1, 3] = 3 \<and> score [3, 3, 2, 1, 2] = 3
   \<and> score [7, 7, 7, 7, 7, 7, 7, 7] = 1 \<and> score [0, 1, 2, 3, 4, 5, 6, 255] = 8"
proof -
  have h: "[1, 2, 1, 3 :: byte] \<noteq> []" by simp
  have s: "set [3, 3, 2, 1, 2 :: byte] = set [1, 2, 1, 3]" by auto
  have "score [3, 3, 2, 1, 2] = score [1, 2, 1, 3]"
    using score_counts_distinct_bytes [OF h] s by blast
  moreover have "score [1, 2, 1, 3] = 3" by code_simp
  moreover have "score [7, 7, 7, 7, 7, 7, 7, 7] = 1" by code_simp
  moreover have "score [0, 1, 2, 3, 4, 5, 6, 255] = 8" by code_simp
  ultimately show ?thesis by simp
qed

section \<open>Properties of the cell aggregator\<close>

lemma update_other:
  "pos \<noteq> (x, y) \<Longrightarrow> update_point_average x y s g pos = g pos"
  by (simp add: update_point_average_def Let_def)

lemma update_touched_new:
  "g (x, y) = None \<Longrightarrow>
   update_point_average x y s g (x, y)
     = Some \<lparr> total_score = s, count' = 1, display_color = COLOR_BACKGROUND \<rparr>"
  by (simp add: update_point_average_def Let_def)

lemma update_touched_old:
  "g (x, y) = Some c \<Longrightarrow>
   update_point_average x y s g (x, y)
     = Some (c\<lparr> total_score := total_score c + s, count' := count' c + 1 \<rparr>)"
  by (simp add: update_point_average_def Let_def)

lemma update_dom: "dom (update_point_average x y s g) = insert (x, y) (dom g)"
  by (simp add: update_point_average_def Let_def)

lemma tick_dom: "dom (tick_animations current g) = dom g"
  by (auto simp: tick_animations_def dom_def split: option.splits)

lemma tick_cell:
  "g pos = Some c \<Longrightarrow>
   \<exists>c'. tick_animations current g pos = Some c'
      \<and> count' c' = count' c \<and> total_score c' = total_score c"
  by (simp add: tick_animations_def split: option.splits)

lemma tick_cell_inv:
  "tick_animations current g pos = Some c' \<Longrightarrow>
   \<exists>c. g pos = Some c \<and> count' c' = count' c \<and> total_score c' = total_score c"
  by (auto simp: tick_animations_def split: option.splits)

lemma reachable_count_pos:
  "reachable g \<Longrightarrow> g pos = Some c \<Longrightarrow> 1 \<le> count' c"
proof (induction arbitrary: pos c rule: reachable.induct)
  case init
  then show ?case by simp
next
  case (merge g x y s)
  show ?case
  proof (cases "pos = (x, y)")
    case True
    show ?thesis
    proof (cases "g (x, y)")
      case None
      with merge.prems True show ?thesis by (auto simp: update_touched_new)
    next
      case (Some c0)
      with merge.prems True show ?thesis by (auto simp: update_touched_old)
    qed
  next
    case False
    with merge.prems merge.IH show ?thesis by (simp add: update_other)
  qed
next
  case (clear g)
  then show ?case by (simp add: clear_grid_def)
next
  case (tick g current)
  from tick.prems obtain c0 where "g pos = Some c0" "count' c = count' c0"
    using tick_cell_inv by blast
  then show ?case using tick.IH by simp
qed

lemma merge_all_other:
  "scores_at pos evs = [] \<Longrightarrow> merge_all evs g pos = g pos"
proof (induction evs arbitrary: g)
  case Nil
  then show ?case by simp
next
  case (Cons e evs)
  obtain x y s where e: "e = (x, y, s)" by (cases e) auto
  from Cons.prems e have ne: "pos \<noteq> (x, y)" and rest: "scores_at pos evs = []"
    by (auto simp: scores_at_def split: if_splits)
  show ?case using Cons.IH [OF rest] ne by (simp add: e update_other)
qed

lemma merge_all_cell_some:
  "g pos = Some c \<Longrightarrow>
   merge_all evs g pos
     = Some (c\<lparr> total_score := total_score c + sum_list (scores_at pos evs),
                 count' := count' c + length (scores_at pos evs) \<rparr>)"
proof (induction evs arbitrary: g c)
  case Nil
  then show ?case by (simp add: scores_at_def)
next
  case (Cons e evs)
  obtain x y s where e: "e = (x, y, s)" by (cases e) auto
  show ?case
  proof (cases "pos = (x, y)")
    case True
    have "update_point_average x y s g pos
            = Some (c\<lparr> total_score := total_score c + s, count' := count' c + 1 \<rparr>)"
      using Cons.prems True by (simp add: update_touched_old)
    from Cons.IH [of "update_point_average x y s g"
                     "c\<lparr> total_score := total_score c + s, count' := count' c + 1 \<rparr>", OF this]
    show ?thesis using True
      by (simp add: e scores_at_def add.assoc)
  next
    case False
    then have "update_point_average x y s g pos = Some c"
      using Cons.prems by (simp add: update_other)
    from Cons.IH [of "update_point_average x y s g" c, OF this] show ?thesis using False
      by (auto simp add: e scores_at_def)
  qed
qed

lemma merge_all_cell_none:
  "g pos = None \<Longrightarrow> scores_at pos evs \<noteq> [] \<Longrightarrow>
   merge_all evs g pos
     = Some \<lparr> total_score = sum_list (scores_at pos evs),
              count' = length (scores_at pos evs),
              display_color = COLOR_BACKGROUND \<rparr>"
proof (induction evs arbitrary: g)
  case Nil
  then show ?case by (simp add: scores_at_def)
next
  case (Cons e evs)
  obtain x y s where e: "e = (x, y, s)" by (cases e) auto
  show ?case
  proof (cases "pos = (x, y)")
    case True
    have st: "update_point_average x y s g pos
            = Some \<lparr> total_score = s, count' = 1, display_color = COLOR_BACKGROUND \<rparr>"
      using Cons.prems(1) True by (simp add: update_touched_new)
    show ?thesis
      using merge_all_cell_some [of "update_point_average x y s g" pos _ evs, OF st] True
      by (simp add: e scores_at_def)
  next
    case False
    then have st: "update_point_average x y s g pos = None"
      using Cons.prems(1) by (simp add: update_other)
    have rest: "scores_at pos evs \<noteq> []" using Cons.prems(2) False
      by (auto simp: e scores_at_def)
    show ?thesis using Cons.IH [of "update_point_average x y s g", OF st rest] False
      by (auto simp add: e scores_at_def)
  qed
qed

lemma scores_at_mset:
  "mset evs' = mset evs \<Longrightarrow> mset (scores_at pos evs') = mset (scores_at pos evs)"
  by (simp add: scores_at_def)

lemma scores_at_perm:
  assumes "mset evs' = mset evs"
  shows "sum_list (scores_at pos evs') = sum_list (scores_at pos evs)"
    and "length (scores_at pos evs') = length (scores_at pos evs)"
    and "scores_at pos evs' = [] \<longleftrightarrow> scores_at pos evs = []"
proof -
  have m: "mset (scores_at pos evs') = mset (scores_at pos evs)"
    using assms by (rule scores_at_mset)
  show "sum_list (scores_at pos evs') = sum_list (scores_at pos evs)"
    using m by (metis sum_mset_sum_list)
  show "length (scores_at pos evs') = length (scores_at pos evs)"
    using m by (metis size_mset)
  then show "scores_at pos evs' = [] \<longleftrightarrow> scores_at pos evs = []"
    by (metis length_0_conv)
qed

lemma merge_all_perm:
  assumes "mset evs' = mset evs"
  shows "merge_all evs' g = merge_all evs g"
proof
  fix pos
  note p = scores_at_perm [OF assms, of pos]
  show "merge_all evs' g pos = merge_all evs g pos"
  proof (cases "scores_at pos evs = []")
    case True
    then show ?thesis using p(3) by (simp add: merge_all_other)
  next
    case False
    then have ne': "scores_at pos evs' \<noteq> []" using p(3) by simp
    show ?thesis
    proof (cases "g pos")
      case None
      show ?thesis
        by (simp only: merge_all_cell_none [of g pos evs, OF None False]
              merge_all_cell_none [of g pos evs', OF None ne'] p(1) p(2))
    next
      case (Some c)
      show ?thesis
        by (simp only: merge_all_cell_some [of g pos c evs, OF Some]
              merge_all_cell_some [of g pos c evs', OF Some] p(1) p(2))
    qed
  qed
qed

lemma scores_at_same_cell: "scores_at (x, y) (map (\<lambda>s. (x, y, s)) ss) = ss"
  by (induction ss) (simp_all add: scores_at_def)

text \<open>
  Claim C4. Take a grid in which the cell at \<open>(x, y)\<close> does not exist yet and any list of
  merge events, for this cell and for others, of which \<open>k \<ge> 1\<close> go into the cell with
  scores \<open>s_1 .. s_k\<close> (\<open>scores_at\<close>). After all merges the cell has \<open>count = k\<close>,
  \<open>total_score = s_1 + ... + s_k\<close> and average \<open>(s_1 + ... + s_k) / k\<close>, and merging the
  same events in any other order ends in the same grid.
\<close>

theorem merge_average_order_independent:
  assumes "g (x, y) = None" "scores_at (x, y) evs \<noteq> []" "mset evs' = mset evs"
  shows "\<exists>c. merge_all evs g (x, y) = Some c
           \<and> count' c = length (scores_at (x, y) evs)
           \<and> total_score c = sum_list (scores_at (x, y) evs)
           \<and> average c = real_of_int (sum_list (scores_at (x, y) evs))
                            / real (length (scores_at (x, y) evs))
           \<and> merge_all evs' g (x, y) = Some c
           \<and> merge_all evs' g = merge_all evs g"
proof -
  let ?c = "\<lparr> total_score = sum_list (scores_at (x, y) evs),
              count' = length (scores_at (x, y) evs),
              display_color = COLOR_BACKGROUND \<rparr>"
  have c: "merge_all evs g (x, y) = Some ?c"
    using assms(1,2) by (rule merge_all_cell_none)
  have p: "merge_all evs' g = merge_all evs g" using assms(3) by (rule merge_all_perm)
  have c': "merge_all evs' g (x, y) = Some ?c" by (simp only: p c)
  have a: "average ?c = real_of_int (sum_list (scores_at (x, y) evs))
                          / real (length (scores_at (x, y) evs))"
    by (simp add: average_def)
  show ?thesis
    by (rule exI [of _ ?c]) (simp add: c c' p average_def)
qed

theorem merge_average_order_independent_witness:
  "(Map.empty :: grid_stats) (1, 2) = None
   \<and> scores_at (1, 2) [(1, 2, 3), (0, 0, 7), (1, 2, 8)] = [3, 8]
   \<and> mset [(1, 2, 8), (1, 2, 3), (0 :: nat, 0 :: nat, 7 :: int)] = mset [(1, 2, 3), (0, 0, 7), (1, 2, 8)]
   \<and> merge_all [(1, 2, 3), (0, 0, 7), (1, 2, 8)] Map.empty (1, 2)
       = Some \<lparr> total_score = 11, count' = 2, display_color = COLOR_BACKGROUND \<rparr>
   \<and> average \<lparr> total_score = 11, count' = 2, display_color = COLOR_BACKGROUND \<rparr> = 11 / 2
   \<and> merge_all [(1, 2, 8), (1, 2, 3), (0, 0, 7)] Map.empty
       = merge_all [(1, 2, 3), (0, 0, 7), (1, 2, 8)] Map.empty"
proof -
  have h1: "(Map.empty :: grid_stats) (1, 2) = None" by simp
  have sc: "scores_at (1, 2) [(1, 2, 3), (0, 0, 7), (1, 2, 8)] = [3, 8]"
    by (simp add: scores_at_def)
  have h2: "scores_at (1, 2) [(1, 2, 3), (0, 0, 7), (1, 2, 8)] \<noteq> []" by (simp add: scores_at_def)
  have h3: "mset [(1, 2, 8), (1, 2, 3), (0 :: nat, 0 :: nat, 7 :: int)]
              = mset [(1, 2, 3), (0, 0, 7), (1, 2, 8)]" by simp
  have ev: "merge_all [(1, 2, 3), (0, 0, 7), (1, 2, 8)] Map.empty (1, 2)
       = Some \<lparr> total_score = 11, count' = 2, display_color = COLOR_BACKGROUND \<rparr>"
    by (simp add: update_point_average_def)
  have pm: "merge_all [(1, 2, 8), (1, 2, 3), (0, 0, 7)] Map.empty
       = merge_all [(1, 2, 3), (0, 0, 7), (1, 2, 8)] Map.empty"
    using merge_average_order_independent [OF h1 h2 h3] by blast
  show ?thesis
    by (intro conjI h1 sc h3 ev pm) (simp add: average_def)
qed

text \<open>
  Claim C8. In every grid the widget can hold, no cell has count \<open>0\<close>. A merge at
  \<open>(x, y)\<close> leaves a cell there whose count is the previous count (\<open>0\<close> if there was no
  cell) plus one and whose average is \<open>total_score / count\<close> with \<open>count \<ge> 1\<close>; it
  changes no other coordinate, creates the cell when it was missing and removes none.
  The animation tick keeps every cell with its count and total. Only \<open>clear_grid\<close>
  removes cells, and it removes them all.
\<close>

theorem aggregator_invariants:
  assumes "reachable g"
  shows "(\<forall>pos c. g pos = Some c \<longrightarrow> 1 \<le> count' c)
       \<and> (\<exists>c'. update_point_average x y s g (x, y) = Some c'
               \<and> count' c' = (case g (x, y) of None \<Rightarrow> 0 | Some c \<Rightarrow> count' c) + 1
               \<and> total_score c' = (case g (x, y) of None \<Rightarrow> 0 | Some c \<Rightarrow> total_score c) + s
               \<and> 1 \<le> count' c'
               \<and> average c' = real_of_int (total_score c') / real (count' c'))
       \<and> (\<forall>pos. pos \<noteq> (x, y) \<longrightarrow> update_point_average x y s g pos = g pos)
       \<and> dom (update_point_average x y s g) = insert (x, y) (dom g)
       \<and> dom (tick_animations current g) = dom g
       \<and> (\<forall>pos c. g pos = Some c \<longrightarrow>
             (\<exists>c'. tick_animations current g pos = Some c'
                 \<and> count' c' = count' c \<and> total_score c' = total_score c))
       \<and> clear_grid g = Map.empty
       \<and> reachable (update_point_average x y s g)"
proof -
  have inv: "\<forall>pos c. g pos = Some c \<longrightarrow> 1 \<le> count' c"
    using assms reachable_count_pos by blast
  have touched: "\<exists>c'. update_point_average x y s g (x, y) = Some c'
               \<and> count' c' = (case g (x, y) of None \<Rightarrow> 0 | Some c \<Rightarrow> count' c) + 1
               \<and> total_score c' = (case g (x, y) of None \<Rightarrow> 0 | Some c \<Rightarrow> total_score c) + s
               \<and> 1 \<le> count' c'
               \<and> average c' = real_of_int (total_score c') / real (count' c')"
  proof (cases "g (x, y)")
    case None
    then show ?thesis by (simp add: update_touched_new average_def)
  next
    case (Some c)
    then show ?thesis by (simp add: update_touched_old average_def)
  qed
  have others: "\<forall>pos. pos \<noteq> (x, y) \<longrightarrow> update_point_average x y s g pos = g pos"
    by (simp add: update_other)
  have tk: "\<forall>pos c. g pos = Some c \<longrightarrow>
             (\<exists>c'. tick_animations current g pos = Some c'
                 \<and> count' c' = count' c \<and> total_score c' = total_score c)"
    using tick_cell by blast
  have r: "reachable (update_point_average x y s g)" using assms by (rule reachable.merge)
  show ?thesis
    by (intro conjI inv touched others update_dom tick_dom tk r) (simp add: clear_grid_def)
qed

theorem aggregator_invariants_witness:
  "reachable (update_point_average 1 2 5 Map.empty)
   \<and> update_point_average 1 2 5 Map.empty (1, 2)
       = Some \<lparr> total_score = 5, count' = 1, display_color = COLOR_BACKGROUND \<rparr>
   \<and> update_point_average 1 2 3 (update_point_average 1 2 5 Map.empty) (1, 2)
       = Some \<lparr> total_score = 8, count' = 2, display_color = COLOR_BACKGROUND \<rparr>
   \<and> average \<lparr> total_score = 8, count' = 2, display_color = COLOR_BACKGROUND \<rparr> = 4
   \<and> update_point_average 1 2 3 (update_point_average 1 2 5 Map.empty) (0, 0) = None
   \<and> dom (update_point_average 1 2 3 (update_point_average 1 2 5 Map.empty)) = {(1, 2)}
   \<and> reachable (update_point_average 1 2 3 (update_point_average 1 2 5 Map.empty))
   \<and> clear_grid (update_point_average 1 2 5 Map.empty) = Map.empty"
proof -
  have h: "reachable (update_point_average 1 2 5 Map.empty)"
    by (rule reachable.merge [OF reachable.init])
  have e1: "update_point_average 1 2 5 Map.empty (1, 2)
       = Some \<lparr> total_score = 5, count' = 1, display_color = COLOR_BACKGROUND \<rparr>"
    by (simp add: update_point_average_def)
  have e2: "update_point_average 1 2 3 (update_point_average 1 2 5 Map.empty) (1, 2)
       = Some \<lparr> total_score = 8, count' = 2, display_color = COLOR_BACKGROUND \<rparr>"
    by (simp add: update_point_average_def)
  have e3: "update_point_average 1 2 3 (update_point_average 1 2 5 Map.empty) (0, 0) = None"
    by (simp add: update_point_average_def)
  have d: "dom (update_point_average 1 2 5 (Map.empty :: grid_stats)) = {(1, 2)}"
    by (simp add: update_point_average_def)
  show ?thesis
    using aggregator_invariants [OF h, of 1 2 3 Map.empty] h e1 e2 e3 d
    by (simp add: average_def)
qed

section \<open>The first pass over an accepted file\<close>








section \<open>Properties of the batch scheduler\<close>










text \<open>The workers of a tick receive every scheduled sample, each once.\<close>

lemma slices_concat_mult:
  "concat (map (\<lambda>i. slice xs (i * c) ((i + 1) * c)) [0..<m]) = take (m * c) xs"
proof -
  have "map (\<lambda>i. slice xs (i * c) ((i + 1) * c)) [0..<m]
          = map (\<lambda>i. slice xs i (i + c)) (map (\<lambda>k. k * c) [0..<m])"
    by (simp add: comp_def add.commute)
  then show ?thesis by (simp only: slices_concat)
qed

lemma concat_nonempty_filter:
  "concat (filter (\<lambda>chunk. chunk \<noteq> []) xss) = concat xss"
  by (induction xss) auto

lemma batch_workers_cover:
  assumes "0 < NUM_WORKERS cfg"
  shows "\<exists>ws. batch_workers cfg samples = Inr ws \<and> concat ws = samples
            \<and> length ws \<le> NUM_WORKERS cfg \<and> [] \<notin> set ws"
proof -
  define c where "c = (length samples + NUM_WORKERS cfg - 1) div NUM_WORKERS cfg"
  let ?all = "map (\<lambda>i. slice samples (i * c) ((i + 1) * c)) [0..<NUM_WORKERS cfg]"
  let ?ws = "filter (\<lambda>chunk. chunk \<noteq> []) ?all"
  have fd: "floordiv (length samples + NUM_WORKERS cfg - 1) (NUM_WORKERS cfg) = Inr c"
    using assms by (simp add: floordiv_def c_def)
  have eq: "batch_workers cfg samples = Inr ?ws"
    by (simp only: batch_workers_def fd sum.case)
  have "length samples \<le> c * NUM_WORKERS cfg"
    unfolding c_def using ceil_div_covers [OF assms, of "length samples"] by simp
  then have "length samples \<le> NUM_WORKERS cfg * c" by (simp add: mult.commute)
  then have all: "concat ?all = samples" by (simp only: slices_concat_mult take_all)
  have "concat ?ws = concat ?all" by (rule concat_nonempty_filter)
  then have cc: "concat ?ws = samples" by (simp only: all)
  have len: "length ?ws \<le> NUM_WORKERS cfg"
    using length_filter_le [of "\<lambda>chunk. chunk \<noteq> []" ?all] by simp
  have ne: "[] \<notin> set ?ws" by simp
  show ?thesis by (rule exI [of _ ?ws]) (intro conjI eq cc len ne)
qed









section \<open>Failed reads in the sampling loops\<close>







end
